theory Spec2Isabelle
  imports Complex_Main "HOL-Library.Product_Lexorder"
begin

section \<open>Characters and strings\<close>

text \<open>
  A Python \<open>str\<close> is modelled as a \<open>string\<close> whose characters are the code points
  below 256 (ASCII and Latin-1); \<open>length\<close> is Python's \<open>len\<close>. The character classes
  are those of Python 3 on this range: \<open>\d\<close> is \<open>[0-9]\<close>, \<open>\s\<close> and \<open>str.strip\<close> use
  \<open>str.isspace\<close>, \<open>\w\<close> is \<open>str.isalnum\<close> or the underscore, and \<open>str.lower\<close> maps
  the upper-case letters of both blocks.
\<close>

definition code :: "char \<Rightarrow> nat" where
  "code c = of_char c"

definition is_digit :: "char \<Rightarrow> bool" where
  "is_digit c = (48 \<le> code c \<and> code c \<le> 57)"

definition is_letter :: "char \<Rightarrow> bool" where
  "is_letter c = ((65 \<le> code c \<and> code c \<le> 90) \<or> (97 \<le> code c \<and> code c \<le> 122))"

definition is_space :: "char \<Rightarrow> bool" where
  "is_space c = ((9 \<le> code c \<and> code c \<le> 13) \<or> (28 \<le> code c \<and> code c \<le> 32)
                 \<or> code c = 133 \<or> code c = 160)"

definition is_alnum :: "char \<Rightarrow> bool" where
  "is_alnum c = (is_letter c \<or> is_digit c
                 \<or> code c \<in> {170, 178, 179, 181, 185, 186, 188, 189, 190}
                 \<or> (192 \<le> code c \<and> code c \<le> 214) \<or> (216 \<le> code c \<and> code c \<le> 246)
                 \<or> 248 \<le> code c)"

definition is_word :: "char \<Rightarrow> bool" where
  "is_word c = (is_alnum c \<or> c = CHR ''_'')"

definition is_ascii :: "char \<Rightarrow> bool" where
  "is_ascii c = (code c < 128)"

definition lower_char :: "char \<Rightarrow> char" where
  "lower_char c =
     (if (65 \<le> code c \<and> code c \<le> 90) \<or> (192 \<le> code c \<and> code c \<le> 214)
         \<or> (216 \<le> code c \<and> code c \<le> 222)
      then char_of (code c + 32) else c)"

definition py_lower :: "string \<Rightarrow> string" where
  "py_lower s = map lower_char s"

text \<open>\<open>s.replace(a, b)\<close> for single characters.\<close>

definition replace_char :: "char \<Rightarrow> char \<Rightarrow> string \<Rightarrow> string" where
  "replace_char a b s = map (\<lambda>c. if c = a then b else c) s"

text \<open>\<open>sub in s\<close> and \<open>s.rfind(sub)\<close> (the highest index of an occurrence, or -1).\<close>

definition occurs_at :: "string \<Rightarrow> string \<Rightarrow> nat \<Rightarrow> bool" where
  "occurs_at s sub i = (take (length sub) (drop i s) = sub)"

definition py_contains :: "string \<Rightarrow> string \<Rightarrow> bool" where
  "py_contains s sub = list_ex (occurs_at s sub) [0..<Suc (length s)]"

definition py_rfind :: "string \<Rightarrow> string \<Rightarrow> int" where
  "py_rfind s sub =
     (case filter (occurs_at s sub) (rev [0..<Suc (length s)]) of
        [] \<Rightarrow> - 1
      | i # _ \<Rightarrow> int i)"

text \<open>\<open>str(n)\<close> and \<open>int(s)\<close> for decimal digit strings.\<close>

fun nat_digits :: "nat \<Rightarrow> string" where
  "nat_digits n =
     (if n < 10 then [char_of (48 + n)] else nat_digits (n div 10) @ [char_of (48 + n mod 10)])"

declare nat_digits.simps [simp del]

definition py_str :: "int \<Rightarrow> string" where
  "py_str n = (if n < 0 then CHR ''-'' # nat_digits (nat (- n)) else nat_digits (nat n))"

definition py_int :: "string \<Rightarrow> int" where
  "py_int s = foldl (\<lambda>a c. 10 * a + int (code c - 48)) 0 s"

text \<open>\<open>s.strip()\<close>, \<open>s.rstrip("_-")\<close>, and the substitutions \<open>re.sub(r"\s+", " ", s)\<close>,
  \<open>re.sub(r"_+", "_", s)\<close>: every maximal run of the class becomes one character.\<close>

definition rstrip_where :: "(char \<Rightarrow> bool) \<Rightarrow> string \<Rightarrow> string" where
  "rstrip_where P s = rev (dropWhile P (rev s))"

definition py_strip :: "string \<Rightarrow> string" where
  "py_strip s = rstrip_where is_space (dropWhile is_space s)"

function collapse_runs :: "(char \<Rightarrow> bool) \<Rightarrow> char \<Rightarrow> string \<Rightarrow> string" where
  "collapse_runs P r [] = []"
| "collapse_runs P r (c # cs) =
     (if P c then r # collapse_runs P r (dropWhile P cs) else c # collapse_runs P r cs)"
  by pat_completeness auto
termination
  by (relation "measure (\<lambda>(P, r, s). length s)") (auto simp: less_Suc_eq_le length_dropWhile_le)

section \<open>Paths\<close>

text \<open>
  A \<open>pathlib.Path\<close> is modelled by the text it was built from, read as a POSIX path:
  the components between slashes, without the empty ones and the single dots.
  \<open>Path.resolve\<close> (symbolic links, the working directory) is left to the file system.
  \<open>suffix\<close> and \<open>stem\<close> split the name at its last dot when that dot is neither the
  first nor the last character (Python 3.13 and earlier).
\<close>

type_synonym path = string

fun split_on :: "char \<Rightarrow> string \<Rightarrow> string list" where
  "split_on d [] = [[]]"
| "split_on d (c # cs) =
     (if c = d then [] # split_on d cs
      else (case split_on d cs of [] \<Rightarrow> [[c]] | p # ps \<Rightarrow> (c # p) # ps))"

definition path_root :: "path \<Rightarrow> string" where
  "path_root p =
     (if take 2 p = ''//'' \<and> take 3 p \<noteq> ''///'' then ''//''
      else if take 1 p = ''/'' then ''/'' else [])"

definition path_parts :: "path \<Rightarrow> string list" where
  "path_parts p = filter (\<lambda>q. q \<noteq> [] \<and> q \<noteq> ''.'') (split_on (CHR ''/'') p)"

fun join_with :: "string \<Rightarrow> string list \<Rightarrow> string" where
  "join_with d [] = []"
| "join_with d [p] = p"
| "join_with d (p # q # ps) = p @ d @ join_with d (q # ps)"

definition path_name :: "path \<Rightarrow> string" where
  "path_name p = (if path_parts p = [] then [] else last (path_parts p))"

definition as_posix :: "path \<Rightarrow> string" where
  "as_posix p =
     (if path_root p = [] \<and> path_parts p = [] then ''.''
      else path_root p @ join_with ''/'' (path_parts p))"

definition path_parent :: "path \<Rightarrow> path" where
  "path_parent p =
     (if path_root p = [] \<and> butlast (path_parts p) = [] then ''.''
      else path_root p @ join_with ''/'' (butlast (path_parts p)))"

text \<open>\<open>Path(d) / name\<close>: an absolute name replaces the directory; otherwise the name
  is one more component behind those of the directory.\<close>

definition path_join :: "path \<Rightarrow> string \<Rightarrow> path" where
  "path_join d name =
     (if take 1 name = ''/'' then name
      else path_root d @ join_with ''/'' (path_parts d @ [name]))"

definition has_suffix :: "string \<Rightarrow> bool" where
  "has_suffix name = (0 < py_rfind name ''.'' \<and> py_rfind name ''.'' < int (length name) - 1)"

definition name_suffix :: "string \<Rightarrow> string" where
  "name_suffix name = (if has_suffix name then drop (nat (py_rfind name ''.'')) name else [])"

definition name_stem :: "string \<Rightarrow> string" where
  "name_stem name = (if has_suffix name then take (nat (py_rfind name ''.'')) name else name)"

definition path_suffix :: "path \<Rightarrow> string" where
  "path_suffix p = name_suffix (path_name p)"

definition path_stem :: "path \<Rightarrow> string" where
  "path_stem p = name_stem (path_name p)"

section \<open>Tempo detection from a file name\<close>

text \<open>
  \<open>RE_BPM_TAGGED = (?i)bpm[\s_\-]*([0-9]{2,3})(?!\d)\<close>. \<open>digits23\<close> is the group with
  its lookahead at the head of a string: three digits are tried before two.
  \<open>tagged_at\<close> is one match attempt at the head of a string: the separators are
  taken greedily, and giving one back leaves a separator where a digit is needed.
  \<open>re_bpm_tagged_search\<close> is \<open>search\<close>: the leftmost position that matches.
\<close>

definition next_is_digit :: "string \<Rightarrow> bool" where
  "next_is_digit s = (case s of [] \<Rightarrow> False | c # _ \<Rightarrow> is_digit c)"

definition digits23 :: "string \<Rightarrow> string option" where
  "digits23 s =
     (if 3 \<le> length s \<and> list_all is_digit (take 3 s) \<and> \<not> next_is_digit (drop 3 s)
      then Some (take 3 s)
      else if 2 \<le> length s \<and> list_all is_digit (take 2 s) \<and> \<not> next_is_digit (drop 2 s)
      then Some (take 2 s)
      else None)"

definition is_sep :: "char \<Rightarrow> bool" where
  "is_sep c = (is_space c \<or> c = CHR ''_'' \<or> c = CHR ''-'')"

definition tagged_at :: "string \<Rightarrow> string option" where
  "tagged_at s =
     (if py_lower (take 3 s) = ''bpm'' then digits23 (dropWhile is_sep (drop 3 s)) else None)"

fun re_bpm_tagged_search :: "string \<Rightarrow> string option" where
  "re_bpm_tagged_search [] = None"
| "re_bpm_tagged_search (c # cs) =
     (case tagged_at (c # cs) of
        Some d \<Rightarrow> Some d
      | None \<Rightarrow> re_bpm_tagged_search cs)"

text \<open>
  \<open>RE_ANY_NUMBER_2_3 = (?<!\d)(\d{2,3})(?!\d)\<close> with \<open>findall\<close>. The flag says whether
  the character before the position is a digit. After a match the scan goes on behind
  it; walking over the digits of the match gives the same list, since each of them
  follows a digit.
\<close>

fun re_any_number_findall :: "bool \<Rightarrow> string \<Rightarrow> string list" where
  "re_any_number_findall prev_digit [] = []"
| "re_any_number_findall prev_digit (c # cs) =
     (case (if prev_digit then None else digits23 (c # cs)) of
        Some d \<Rightarrow> d # re_any_number_findall (is_digit c) cs
      | None \<Rightarrow> re_any_number_findall (is_digit c) cs)"

definition bpm_in_range :: "int \<Rightarrow> bool" where
  "bpm_in_range n = (40 \<le> n \<and> n \<le> 220)"

definition bpm_keywords :: "string list" where
  "bpm_keywords = [''loop'', ''drum'', ''beat'', ''kick'', ''snare'', ''hats'', ''perc'', ''groove'']"

definition score :: "string \<Rightarrow> int \<Rightarrow> int" where
  "score base c =
     (let idx = py_rfind (py_lower base) (py_str c)
      in (if 0 \<le> idx then 2 * (int (length base) - idx) else 0)
         + (if list_ex (py_contains (py_lower base)) bpm_keywords then 50 else 0))"

definition sort_key_of :: "string \<Rightarrow> int \<times> int \<Rightarrow> int \<times> int" where
  "sort_key_of base t = (fst t, py_rfind base (py_str (snd t)))"

definition tagged_bpm :: "string \<Rightarrow> int option" where
  "tagged_bpm base =
     (case re_bpm_tagged_search base of
        None \<Rightarrow> None
      | Some d \<Rightarrow> if bpm_in_range (py_int d) then Some (py_int d) else None)"

definition candidates_of :: "string \<Rightarrow> int list" where
  "candidates_of base = filter bpm_in_range (map py_int (re_any_number_findall False base))"

definition guess_bpm_from_name :: "string \<Rightarrow> int option" where
  "guess_bpm_from_name name =
     (let base = path_stem name
      in case tagged_bpm base of
           Some bpm \<Rightarrow> Some bpm
         | None \<Rightarrow>
             let candidates = candidates_of base
             in if candidates = [] then None
                else let scored = map (\<lambda>c. (score base c, c)) candidates
                     in Some (snd (last (sort_key (sort_key_of base) scored))))"

text \<open>
  The scoring as the specification words it, for comparison: twice the distance from
  the start of the string to the candidate's last occurrence, plus the keyword bonus.
\<close>

definition spec_score :: "string \<Rightarrow> int \<Rightarrow> int" where
  "spec_score base c =
     2 * py_rfind (py_lower base) (py_str c)
     + (if list_ex (py_contains (py_lower base)) bpm_keywords then 50 else 0)"

section \<open>The stage chain of a tempo ratio\<close>

text \<open>
  A Python float is modelled by the rational number it denotes. Inside \<open>atempo_chain\<close>
  the arithmetic is exact on floats: halving and doubling are exact, \<open>r - 1.0\<close> is exact
  for \<open>r\<close> in [1/2, 2], and no float is strictly between the float constant \<open>1e-6\<close> and
  1/1000000 away from 1. \<open>atempo_chain\<close> is the list \<open>factors\<close> the function builds,
  before it is printed with six decimals. The second loop does not end on a ratio that
  is not positive, so it is a partial function; the guard raises before it is reached.
\<close>

datatype py_error =
    ValueError string
  | OSError string
  | ZeroDivisionError string
  | OverflowError string

function hi_loop :: "rat \<Rightarrow> rat list \<Rightarrow> rat \<times> rat list" where
  "hi_loop r factors = (if r > 2 then hi_loop (r / 2) (factors @ [2]) else (r, factors))"
  by pat_completeness auto
termination
proof (relation "measure (\<lambda>(r, factors). nat \<lceil>r\<rceil>)")
  show "wf (measure (\<lambda>(r, factors). nat \<lceil>r\<rceil>))" by simp
next
  fix r :: rat and factors :: "rat list"
  assume h: "2 < r"
  have "r / 2 \<le> of_int (\<lceil>r\<rceil> - 1)"
  proof -
    have a: "r \<le> of_int \<lceil>r\<rceil>" by (rule le_of_int_ceiling)
    have "2 < \<lceil>r\<rceil>" using h by (simp add: less_ceiling_iff)
    then have "(3::rat) \<le> of_int \<lceil>r\<rceil>" by linarith
    with a have "r \<le> 2 * of_int \<lceil>r\<rceil> - 2" by linarith
    then show ?thesis by simp
  qed
  then have "\<lceil>r / 2\<rceil> \<le> \<lceil>r\<rceil> - 1" by (simp only: ceiling_le_iff)
  moreover have "0 < \<lceil>r\<rceil>" using h by (simp add: less_ceiling_iff)
  ultimately show "((r / 2, factors @ [2]), (r, factors)) \<in> measure (\<lambda>(r, factors). nat \<lceil>r\<rceil>)"
    by simp
qed

declare hi_loop.simps [simp del]

partial_function (option) lo_loop :: "rat \<Rightarrow> rat list \<Rightarrow> (rat \<times> rat list) option" where
  "lo_loop r factors =
     (if r < 1 / 2 then lo_loop (r / (1 / 2)) (factors @ [1 / 2]) else Some (r, factors))"

declare lo_loop.simps [code]

definition atempo_chain :: "rat \<Rightarrow> (py_error + rat list) option" where
  "atempo_chain ratio =
     (if ratio \<le> 0 then Some (Inl (ValueError ''ratio debe ser > 0''))
      else case hi_loop ratio [] of (r1, f1) \<Rightarrow>
        (case lo_loop r1 f1 of
           None \<Rightarrow> None
         | Some (r2, f2) \<Rightarrow>
             let f3 = (if \<bar>r2 - 1\<bar> > 1 / 1000000 then f2 @ [r2] else f2);
                 f4 = (if f3 = [] then [1] else f3)
             in Some (Inr f4)))"

text \<open>
  The argument of \<open>atempo_chain\<close> is the float that the true division of two integers
  gives (line 278). The division is correctly rounded; \<open>float_rounding\<close> collects what
  is used of the rounding to the nearest float: it is monotone, it keeps the integers
  up to \<open>2^53\<close>, and in the normal range its relative error is at most \<open>2^-53\<close>.
  \<open>py_true_div\<close> is \<open>a / b\<close> on integers, with its two exceptions; a quotient of
  magnitude \<open>2^1024 - 2^970\<close> or more does not round to a float.
\<close>

definition float_rounding :: "(rat \<Rightarrow> rat) \<Rightarrow> bool" where
  "float_rounding rnd =
     ((\<forall>x y. x \<le> y \<longrightarrow> rnd x \<le> rnd y)
      \<and> (\<forall>k::int. \<bar>k\<bar> \<le> 2 ^ 53 \<longrightarrow> rnd (of_int k) = of_int k)
      \<and> (\<forall>q. 1 / 2 ^ 1022 \<le> \<bar>q\<bar> \<and> \<bar>q\<bar> < 2 ^ 1024 \<longrightarrow> \<bar>rnd q - q\<bar> \<le> \<bar>q\<bar> / 2 ^ 53))"

definition py_true_div :: "(rat \<Rightarrow> rat) \<Rightarrow> int \<Rightarrow> int \<Rightarrow> py_error + rat" where
  "py_true_div rnd a b =
     (if b = 0 then Inl (ZeroDivisionError ''division by zero'')
      else if 2 ^ 1024 - 2 ^ 970 \<le> \<bar>of_int a / of_int b :: rat\<bar>
      then Inl (OverflowError ''integer division result too large for a float'')
      else Inr (rnd (of_int a / of_int b)))"

text \<open>\<open>int(x)\<close> of a float truncates towards zero.\<close>

definition py_trunc :: "rat \<Rightarrow> int" where
  "py_trunc x = (if 0 \<le> x then \<lfloor>x\<rfloor> else \<lceil>x\<rceil>)"

text \<open>
  The string that \<open>atempo_chain\<close> returns prints every factor with \<open>:.6f\<close>: the exact
  value of the float, rounded to six decimals, ties to the even digit. \<open>six_decimals\<close> is
  the number that the text denotes.
\<close>

definition round_half_even :: "rat \<Rightarrow> int" where
  "round_half_even x =
     (let n = \<lfloor>x\<rfloor>; d = x - of_int n
      in if d < 1 / 2 then n else if 1 / 2 < d then n + 1 else if even n then n else n + 1)"

definition six_decimals :: "rat \<Rightarrow> rat" where
  "six_decimals x = of_int (round_half_even (x * 1000000)) / 1000000"

section \<open>Output names\<close>

text \<open>
  \<open>_SANITIZE_STOPWORDS = (?i)\b(drum|loop|full)\b\<close>, substituted by the empty string.
  \<open>stop_at\<close> is one match attempt at the head of a string; the flag says whether the
  character before it is a word character. The four letters are word characters, so
  the boundary before them asks for no word character before, and the boundary
  behind them for none after. \<open>sub_stopwords\<close> scans from the left and goes on behind
  a match.
\<close>

definition stopwords :: "string list" where
  "stopwords = [''drum'', ''loop'', ''full'']"

definition next_is_word :: "string \<Rightarrow> bool" where
  "next_is_word s = (case s of [] \<Rightarrow> False | c # _ \<Rightarrow> is_word c)"

definition stop_at :: "bool \<Rightarrow> string \<Rightarrow> bool" where
  "stop_at prev_word s =
     (\<not> prev_word \<and> 4 \<le> length s \<and> py_lower (take 4 s) \<in> set stopwords
      \<and> \<not> next_is_word (drop 4 s))"

fun sub_stopwords :: "bool \<Rightarrow> string \<Rightarrow> string" where
  "sub_stopwords prev_word [] = []"
| "sub_stopwords prev_word (c # cs) =
     (if stop_at prev_word (c # cs) then sub_stopwords True (drop 3 cs)
      else c # sub_stopwords (is_word c) cs)"

text \<open>\<open>re.sub(r"[^A-Za-z]+$", "", s)\<close>: the trailing run of characters that are not
  ASCII letters is removed (a final newline belongs to the run).\<close>

definition strip_non_alpha_tail :: "string \<Rightarrow> string" where
  "strip_non_alpha_tail s = rstrip_where (\<lambda>c. \<not> is_letter c) s"

text \<open>\<open>sanitized\<close> is the value of \<open>s\<close> after step 6 of \<open>_sanitize_base\<close>, and
  \<open>sanitize_base\<close> the function, with the placeholder of step 7.\<close>

definition sanitized :: "string \<Rightarrow> string" where
  "sanitized base =
     (let s = filter (\<lambda>c. \<not> is_digit c) base;
          s_spaces = replace_char (CHR ''-'') (CHR '' '') (replace_char (CHR ''_'') (CHR '' '') s);
          s_spaces = sub_stopwords False s_spaces;
          s_spaces = py_strip (collapse_runs is_space (CHR '' '') s_spaces);
          s = replace_char (CHR '' '') (CHR ''_'') s_spaces;
          s = collapse_runs (\<lambda>c. c = CHR ''_'') (CHR ''_'') s
      in strip_non_alpha_tail s)"

definition sanitize_base :: "string \<Rightarrow> string" where
  "sanitize_base base = (let s = sanitized base in if s = [] then ''converted'' else s)"

text \<open>
  \<open>safe_out_clean\<close> is the value of \<open>clean\<close> when \<open>safe_out_path\<close> has finished with
  it, \<open>safe_out_name\<close> is \<open>newname\<close>, and \<open>safe_out_path\<close> joins it to the output
  directory. \<open>Path(rel).stem\<close> of a text without slashes is the stem of that text.
\<close>

definition is_label_char :: "char \<Rightarrow> bool" where
  "is_label_char c = (is_letter c \<or> is_digit c \<or> c = CHR ''_'' \<or> c = CHR ''-'')"

definition normalize_suffix :: "string \<Rightarrow> string" where
  "normalize_suffix suffix =
     (let suf = py_strip suffix;
          suf = replace_char (CHR '' '') (CHR ''_'') suf;
          suf = collapse_runs (\<lambda>c. c = CHR ''_'') (CHR ''_'') suf
      in filter is_label_char suf)"

definition rel_of :: "path \<Rightarrow> bool \<Rightarrow> string" where
  "rel_of src flat_names =
     (if flat_names then path_name src
      else replace_char (CHR ''/'') (CHR ''_'') (filter (\<lambda>c. c \<noteq> CHR '':'') (as_posix src)))"

definition safe_out_clean :: "path \<Rightarrow> bool \<Rightarrow> string \<Rightarrow> string" where
  "safe_out_clean src flat_names suffix =
     (let base = path_stem (rel_of src flat_names);
          clean = sanitize_base base;
          clean =
            (if suffix \<noteq> [] then
               (let suf = normalize_suffix suffix
                in if suf \<noteq> [] then
                     (let candidate = clean @ ''_'' @ suf;
                          candidate = collapse_runs (\<lambda>c. c = CHR ''_'') (CHR ''_'') candidate;
                          candidate = strip_non_alpha_tail candidate
                      in if candidate \<noteq> [] then candidate else clean)
                   else clean)
             else clean);
          clean = rstrip_where (\<lambda>c. c = CHR ''_'' \<or> c = CHR ''-'') clean
      in if clean = [] then ''converted'' else clean)"

definition safe_out_name :: "path \<Rightarrow> bool \<Rightarrow> string \<Rightarrow> string" where
  "safe_out_name src flat_names suffix =
     safe_out_clean src flat_names suffix @ py_lower (path_suffix src)"

section \<open>The conversion of one file and the batch run\<close>

text \<open>
  The file system, the external converter and the float arithmetic are an environment
  acting on a world state: \<open>mkdir\<close> is \<open>Path.mkdir(parents=True, exist_ok=True)\<close>,
  \<open>path_exists\<close> is \<open>Path.exists\<close>, \<open>resolve\<close> is \<open>Path.resolve\<close>, \<open>which_ffmpeg\<close> is the
  discovery of the converter, each of which may raise; \<open>check_output\<close> runs the
  converter on the executable, the source, the stage chain, the codec arguments and
  the destination; \<open>float_of\<close> rounds a quotient to the nearest float.
\<close>

datatype proc_result = Exit_ok | Called_process_error string | Other_exception string

type_synonym ffmpeg_call = "path \<times> string \<times> rat list \<times> string list \<times> string"

record 'w env =
  mkdir :: "path \<Rightarrow> 'w \<Rightarrow> py_error option \<times> 'w"
  path_exists :: "path \<Rightarrow> 'w \<Rightarrow> py_error + bool"
  resolve :: "path \<Rightarrow> 'w \<Rightarrow> py_error + path"
  which_ffmpeg :: "'w \<Rightarrow> py_error + path option"
  check_output :: "ffmpeg_call \<Rightarrow> 'w \<Rightarrow> proc_result \<times> 'w"
  float_of :: "rat \<Rightarrow> rat"

definition safe_out_path ::
  "'w env \<Rightarrow> path \<Rightarrow> path \<Rightarrow> int \<Rightarrow> bool \<Rightarrow> string \<Rightarrow> 'w \<Rightarrow> py_error + path" where
  "safe_out_path e src dir tbpm flat suffix w =
     resolve e (path_join dir (safe_out_name src flat suffix)) w"

definition not_found_msg :: string where
  "not_found_msg =
     ''FFmpeg no encontrado. (Ponlo junto al .exe o en ./ffmpeg/ffmpeg.exe o ./assets/ffmpeg.exe o en PATH)''"

definition pcm_suffixes :: "string list" where
  "pcm_suffixes = [''.wav'', ''.aiff'', ''.aif'']"

definition convert_with_ffmpeg ::
  "'w env \<Rightarrow> path \<Rightarrow> path \<Rightarrow> rat \<Rightarrow> 'w \<Rightarrow> ((py_error + bool \<times> string) \<times> 'w) option" where
  "convert_with_ffmpeg e src dst ratio w =
     (case which_ffmpeg e w of
        Inl err \<Rightarrow> Some (Inl err, w)
      | Inr None \<Rightarrow> Some (Inr (False, not_found_msg), w)
      | Inr (Some ffmpeg_path) \<Rightarrow>
          (case mkdir e (path_parent dst) w of
             (Some err, w1) \<Rightarrow> Some (Inl err, w1)
           | (None, w1) \<Rightarrow>
               (case atempo_chain ratio of
                  None \<Rightarrow> None
                | Some (Inl err) \<Rightarrow> Some (Inl err, w1)
                | Some (Inr factors) \<Rightarrow>
                    let out_args = (if py_lower (path_suffix dst) \<in> set pcm_suffixes
                                    then [''-c:a'', ''pcm_s24le''] else [])
                    in (case check_output e
                               (ffmpeg_path, as_posix src, factors, out_args, as_posix dst) w1 of
                          (Exit_ok, w2) \<Rightarrow> Some (Inr (True, ''ok''), w2)
                        | (Called_process_error out, w2) \<Rightarrow>
                            Some (Inr (False, ''FFmpeg error:'' @ [char_of (10::nat)] @ out), w2)
                        | (Other_exception txt, w2) \<Rightarrow> Some (Inr (False, txt), w2)))))"

text \<open>
  The signals of the task are a trace of events. A message is kept as its kind and
  the values its text is built from.
\<close>

datatype message =
    No_bpm string
  | Output_exists string
  | Converting string int int rat
  | Saved string
  | Error_in string string
  | Traceback py_error

datatype event = Progress int | Message message | Finished_ok nat nat

record settings =
  target_bpm :: int
  out_dir :: path
  overwrite :: bool
  flat_names :: bool
  suffix_label :: string

definition convert_task :: "int \<Rightarrow> path \<Rightarrow> bool \<Rightarrow> bool \<Rightarrow> string \<Rightarrow> settings" where
  "convert_task bpm dir ovw flat label =
     \<lparr>target_bpm = bpm, out_dir = dir, overwrite = ovw, flat_names = flat,
      suffix_label = (if label \<noteq> [] then ''_'' @ label else [])\<rparr>"

record 'w run_state =
  processed :: nat
  skipped :: nat
  events :: "event list"
  world :: 'w

definition emit :: "event \<Rightarrow> 'w run_state \<Rightarrow> 'w run_state" where
  "emit ev st = st\<lparr>events := events st @ [ev]\<rparr>"

definition skip_with :: "message \<Rightarrow> 'w run_state \<Rightarrow> 'w run_state" where
  "skip_with m st = emit (Message m) (st\<lparr>skipped := skipped st + 1\<rparr>)"

definition error_text :: "py_error \<Rightarrow> string" where
  "error_text err =
     (case err of ValueError t \<Rightarrow> t | OSError t \<Rightarrow> t | ZeroDivisionError t \<Rightarrow> t
      | OverflowError t \<Rightarrow> t)"

text \<open>
  \<open>try_body\<close> is the body of the \<open>try\<close> for one file: it returns the exception it
  raised, if any, with the state reached. \<open>process_file\<close> is one turn of the loop,
  with the handler and the progress signal. \<open>run_loop\<close> is the loop and \<open>run\<close> the
  whole method; \<open>Inl\<close> is an exception that leaves it. The division of the progress
  value does not raise: the divisor is at least 1.
\<close>

definition try_body ::
  "'w env \<Rightarrow> settings \<Rightarrow> path \<Rightarrow> 'w run_state \<Rightarrow> (py_error option \<times> 'w run_state) option" where
  "try_body e cfg f st =
     (case guess_bpm_from_name (path_name f) of
        None \<Rightarrow> Some (None, skip_with (No_bpm (path_name f)) st)
      | Some bpm \<Rightarrow>
          if bpm = 0 then Some (None, skip_with (No_bpm (path_name f)) st)
          else
            (case py_true_div (float_of e) (target_bpm cfg) bpm of
               Inl err \<Rightarrow> Some (Some err, st)
             | Inr ratio \<Rightarrow>
                 (case safe_out_path e f (out_dir cfg) (target_bpm cfg) (flat_names cfg)
                         (suffix_label cfg) (world st) of
                    Inl err \<Rightarrow> Some (Some err, st)
                  | Inr outpath \<Rightarrow>
                      (case path_exists e outpath (world st) of
                         Inl err \<Rightarrow> Some (Some err, st)
                       | Inr ex \<Rightarrow>
                           if ex \<and> \<not> overwrite cfg
                           then Some (None, skip_with (Output_exists (path_name f)) st)
                           else
                             let st1 = emit (Message (Converting (path_name f) bpm
                                                        (target_bpm cfg) ratio)) st
                             in (case convert_with_ffmpeg e f outpath ratio (world st1) of
                                   None \<Rightarrow> None
                                 | Some (Inl err, w) \<Rightarrow> Some (Some err, st1\<lparr>world := w\<rparr>)
                                 | Some (Inr (ok, msg), w) \<Rightarrow>
                                     if ok
                                     then Some (None, emit (Message (Saved (path_name outpath)))
                                                  (st1\<lparr>world := w, processed := processed st1 + 1\<rparr>))
                                     else Some (None, skip_with (Error_in (path_name f) msg)
                                                  (st1\<lparr>world := w\<rparr>)))))))"

definition progress_value :: "(rat \<Rightarrow> rat) \<Rightarrow> nat \<Rightarrow> nat \<Rightarrow> int" where
  "progress_value rnd i total_files =
     py_trunc (rnd (of_nat (i * 100) / of_nat (max total_files 1)))"

definition process_file ::
  "'w env \<Rightarrow> settings \<Rightarrow> nat \<Rightarrow> nat \<Rightarrow> path \<Rightarrow> 'w run_state \<Rightarrow> 'w run_state option" where
  "process_file e cfg total_files i f st =
     (case try_body e cfg f st of
        None \<Rightarrow> None
      | Some (None, st1) \<Rightarrow>
          Some (emit (Progress (progress_value (float_of e) i total_files)) st1)
      | Some (Some err, st1) \<Rightarrow>
          Some (emit (Progress (progress_value (float_of e) i total_files))
                 (emit (Message (Traceback err))
                   (skip_with (Error_in (path_name f) (error_text err)) st1))))"

fun run_loop ::
  "'w env \<Rightarrow> settings \<Rightarrow> nat \<Rightarrow> nat \<Rightarrow> path list \<Rightarrow> 'w run_state \<Rightarrow> 'w run_state option" where
  "run_loop e cfg total_files i [] st = Some st"
| "run_loop e cfg total_files i (f # fs) st =
     (case process_file e cfg total_files i f st of
        None \<Rightarrow> None
      | Some st1 \<Rightarrow> run_loop e cfg total_files (Suc i) fs st1)"

definition run ::
  "'w env \<Rightarrow> settings \<Rightarrow> path list \<Rightarrow> 'w \<Rightarrow> (py_error + 'w run_state) option" where
  "run e cfg files w =
     (let total_files = length files
      in case mkdir e (out_dir cfg) w of
           (Some err, w1) \<Rightarrow> Some (Inl err)
         | (None, w1) \<Rightarrow>
             (case run_loop e cfg total_files 1 files
                     \<lparr>processed = 0, skipped = 0, events = [], world = w1\<rparr> of
                None \<Rightarrow> None
              | Some st \<Rightarrow> Some (Inr (emit (Finished_ok (processed st) (skipped st)) st))))"

definition progress_of :: "event list \<Rightarrow> int list" where
  "progress_of evs = concat (map (\<lambda>ev. case ev of Progress p \<Rightarrow> [p] | _ \<Rightarrow> []) evs)"

definition messages_of :: "event list \<Rightarrow> message list" where
  "messages_of evs = concat (map (\<lambda>ev. case ev of Message m \<Rightarrow> [m] | _ \<Rightarrow> []) evs)"

section \<open>Invariants of sanitized names\<close>

text \<open>
  Two predicates for the proofs about \<open>_sanitize_base\<close>. \<open>no_stop\<close> says that the
  stopword pattern matches nowhere in a string, read with the same flag as
  \<open>sub_stopwords\<close>. \<open>isolated P r\<close> says that every character of the class \<open>P\<close> is the
  character \<open>r\<close> and is not followed by another character of the class.
\<close>

fun no_stop :: "bool \<Rightarrow> string \<Rightarrow> bool" where
  "no_stop prev_word [] = True"
| "no_stop prev_word (c # cs) = (\<not> stop_at prev_word (c # cs) \<and> no_stop (is_word c) cs)"

definition next_in :: "(char \<Rightarrow> bool) \<Rightarrow> string \<Rightarrow> bool" where
  "next_in P s = (case s of [] \<Rightarrow> False | c # _ \<Rightarrow> P c)"

fun isolated :: "(char \<Rightarrow> bool) \<Rightarrow> char \<Rightarrow> string \<Rightarrow> bool" where
  "isolated P r [] = True"
| "isolated P r (c # cs) = ((if P c then c = r \<and> \<not> next_in P cs else True) \<and> isolated P r cs)"

section \<open>Properties of the stage chain\<close>

lemma hi_loop_spec:
  "0 < r \<Longrightarrow> \<exists>k r'. hi_loop r fs = (r', fs @ replicate k 2) \<and> r = r' * 2 ^ k \<and> 0 < r' \<and> r' \<le> 2
      \<and> (0 < k \<longrightarrow> 1 < r') \<and> (r \<le> 2 \<longrightarrow> k = 0) \<and> (2 < r \<longrightarrow> 0 < k)"
proof (induction r fs rule: hi_loop.induct)
  case (1 r factors)
  show ?case
  proof (cases "2 < r")
    case False
    then have "hi_loop r factors = (r, factors @ replicate 0 2)" by (subst hi_loop.simps) simp
    with False 1(2) show ?thesis by (intro exI[of _ 0] exI[of _ r]) simp
  next
    case True
    then have pos: "0 < r / 2" by simp
    from 1(1)[OF True pos] obtain k r' where
      h: "hi_loop (r / 2) (factors @ [2]) = (r', (factors @ [2]) @ replicate k 2)"
         "r / 2 = r' * 2 ^ k" "0 < r'" "r' \<le> 2" "0 < k \<longrightarrow> 1 < r'" "r / 2 \<le> 2 \<longrightarrow> k = 0"
      by blast
    have e: "hi_loop r factors = (r', factors @ replicate (Suc k) 2)"
      using True h(1) by (subst hi_loop.simps) (simp add: replicate_app_Cons_same)
    have r: "r = r' * 2 ^ Suc k" using h(2) by simp
    have one: "1 < r'"
    proof (cases "k = 0")
      case True
      with h(2) \<open>2 < r\<close> show ?thesis by simp
    next
      case False
      with h(5) show ?thesis by simp
    qed
    show ?thesis using e r h(3,4) one True by (intro exI[of _ "Suc k"] exI[of _ r']) simp
  qed
qed

lemma lo_loop_spec:
  "0 < r \<Longrightarrow> \<exists>k r'. lo_loop r fs = Some (r', fs @ replicate k (1 / 2)) \<and> r' = r * 2 ^ k \<and> 1 / 2 \<le> r'
      \<and> (0 < k \<longrightarrow> r' < 1) \<and> (1 / 2 \<le> r \<longrightarrow> k = 0) \<and> (r < 1 / 2 \<longrightarrow> 0 < k)"
proof (induction "nat \<lceil>1 / r\<rceil>" arbitrary: r fs rule: less_induct)
  case less
  show ?case
  proof (cases "r < 1 / 2")
    case False
    then have "lo_loop r fs = Some (r, fs @ replicate 0 (1 / 2))" by (subst lo_loop.simps) simp
    with False show ?thesis by (intro exI[of _ 0] exI[of _ r]) simp
  next
    case True
    have pos: "0 < r * 2" using less.prems by simp
    have inv: "2 < 1 / r" using True less.prems by (simp add: field_simps)
    have "1 / (r * 2) \<le> of_int (\<lceil>1 / r\<rceil> - 1)"
    proof -
      have a: "1 / r \<le> of_int \<lceil>1 / r\<rceil>" by (rule le_of_int_ceiling)
      have "2 < \<lceil>1 / r\<rceil>" using inv by (simp add: less_ceiling_iff)
      then have "(3::rat) \<le> of_int \<lceil>1 / r\<rceil>" by linarith
      with a have "1 / r \<le> 2 * of_int \<lceil>1 / r\<rceil> - 2" by linarith
      then show ?thesis by simp
    qed
    then have "\<lceil>1 / (r * 2)\<rceil> \<le> \<lceil>1 / r\<rceil> - 1" by (simp only: ceiling_le_iff)
    moreover have "0 < \<lceil>1 / r\<rceil>" using less.prems by (simp add: less_ceiling_iff)
    ultimately have m: "nat \<lceil>1 / (r * 2)\<rceil> < nat \<lceil>1 / r\<rceil>" by simp
    from less.hyps[OF m pos, of "fs @ [1 / 2]"] obtain k r' where
      h: "lo_loop (r * 2) (fs @ [1 / 2]) = Some (r', (fs @ [1 / 2]) @ replicate k (1 / 2))"
         "r' = r * 2 * 2 ^ k" "1 / 2 \<le> r'" "0 < k \<longrightarrow> r' < 1" "1 / 2 \<le> r * 2 \<longrightarrow> k = 0"
      by blast
    have e: "lo_loop r fs = Some (r', fs @ replicate (Suc k) (1 / 2))"
      using True h(1) by (subst lo_loop.simps) (simp add: replicate_app_Cons_same)
    have one: "r' < 1"
    proof (cases "k = 0")
      case True
      with h(2) \<open>r < 1 / 2\<close> show ?thesis by simp
    next
      case False
      with h(4) show ?thesis by simp
    qed
    show ?thesis using e h(2,3) one True by (intro exI[of _ "Suc k"] exI[of _ r']) simp
  qed
qed


lemma lo_loop_stop: "1 / 2 \<le> r \<Longrightarrow> lo_loop r fs = Some (r, fs)"
  by (subst lo_loop.simps) simp

lemma atempo_chain_high:
  assumes "2 < ratio"
  shows "\<exists>k r. 0 < k \<and> ratio = r * 2 ^ k \<and> 1 < r \<and> r \<le> 2 \<and>
           atempo_chain ratio = Some (Inr (replicate k 2 @ (if 1 / 1000000 < \<bar>r - 1\<bar> then [r] else [])))"
proof -
  have pos: "0 < ratio" using assms by simp
  from hi_loop_spec[OF pos, of "[]"] assms obtain k r where
    h: "hi_loop ratio [] = (r, replicate k 2)" "ratio = r * 2 ^ k" "1 < r" "r \<le> 2" "0 < k"
    by auto
  have lo: "lo_loop r (replicate k 2) = Some (r, replicate k 2)"
    using h(3) by (intro lo_loop_stop) simp
  have "atempo_chain ratio = Some (Inr (replicate k 2 @ (if 1 / 1000000 < \<bar>r - 1\<bar> then [r] else [])))"
    using pos h(1,5) lo by (simp add: atempo_chain_def Let_def)
  with h show ?thesis by blast
qed

lemma atempo_chain_low:
  assumes "0 < ratio" "ratio < 1 / 2"
  shows "\<exists>k r. 0 < k \<and> r = ratio * 2 ^ k \<and> 1 / 2 \<le> r \<and> r < 1 \<and>
           atempo_chain ratio = Some (Inr (replicate k (1 / 2) @ (if 1 / 1000000 < \<bar>r - 1\<bar> then [r] else [])))"
proof -
  have hi: "hi_loop ratio [] = (ratio, [])" using assms by (subst hi_loop.simps) simp
  from lo_loop_spec[OF assms(1), of "[]"] assms(2) obtain k r where
    h: "lo_loop ratio [] = Some (r, replicate k (1 / 2))" "r = ratio * 2 ^ k" "1 / 2 \<le> r" "r < 1" "0 < k"
    by auto
  have "atempo_chain ratio = Some (Inr (replicate k (1 / 2) @ (if 1 / 1000000 < \<bar>r - 1\<bar> then [r] else [])))"
    using assms(1) hi h(1,5) by (simp add: atempo_chain_def Let_def)
  with h show ?thesis by blast
qed

lemma atempo_chain_mid:
  assumes "1 / 2 \<le> ratio" "ratio \<le> 2"
  shows "atempo_chain ratio = Some (Inr (if 1 / 1000000 < \<bar>ratio - 1\<bar> then [ratio] else [1]))"
proof -
  have hi: "hi_loop ratio [] = (ratio, [])" using assms by (subst hi_loop.simps) simp
  have lo: "lo_loop ratio [] = Some (ratio, [])" using assms(1) by (rule lo_loop_stop)
  show ?thesis using assms hi lo by (simp add: atempo_chain_def Let_def)
qed

lemma prod_list_replicate_rat: "prod_list (replicate k (c::rat)) = c ^ k"
  by (induction k) simp_all

section \<open>The product of the stage chain\<close>

lemma two_pow_53: "(2::rat) ^ 53 = 9007199254740992"
  by simp

lemma rounding_error_products:
  fixes S T ratio :: rat
  assumes "0 < S" and "\<bar>ratio - T / S\<bar> \<le> (T / S) / 9007199254740992"
  shows "T * (1 - 1 / 9007199254740992) \<le> ratio * S"
    and "ratio * S \<le> T * (1 + 1 / 9007199254740992)"
proof -
  have lo: "T / S * (1 - 1 / 9007199254740992) \<le> ratio"
    and hi: "ratio \<le> T / S * (1 + 1 / 9007199254740992)"
    using assms(2) by (simp_all add: abs_le_iff algebra_simps)
  have "T / S * (1 - 1 / 9007199254740992) * S \<le> ratio * S"
    using lo assms(1) by (intro mult_right_mono) simp_all
  then show "T * (1 - 1 / 9007199254740992) \<le> ratio * S"
    using assms(1) by simp
  have "ratio * S \<le> T / S * (1 + 1 / 9007199254740992) * S"
    using hi assms(1) by (intro mult_right_mono) simp_all
  then show "ratio * S \<le> T * (1 + 1 / 9007199254740992)"
    using assms(1) by simp
qed

lemma int_gap:
  fixes a b :: int
  shows "a = b \<or> (of_int a :: rat) + 1 \<le> of_int b \<or> (of_int b :: rat) + 1 \<le> of_int a"
proof -
  have "a = b \<or> a + 1 \<le> b \<or> b + 1 \<le> a" by linarith
  then show ?thesis
  proof (elim disjE)
    assume "a + 1 \<le> b"
    then have "(of_int (a + 1) :: rat) \<le> of_int b" by (simp only: of_int_le_iff)
    then show ?thesis by simp
  next
    assume "b + 1 \<le> a"
    then have "(of_int (b + 1) :: rat) \<le> of_int a" by (simp only: of_int_le_iff)
    then show ?thesis by simp
  qed simp
qed


lemma product_near_quotient:
  fixes s t :: int and ratio :: rat
  assumes st: "0 < s" "0 < t" "s \<le> 999999" "t \<le> 999999"
    and err: "\<bar>ratio - of_int t / of_int s\<bar> \<le> (of_int t / of_int s) / 9007199254740992"
    and pos: "0 < ratio"
    and chain: "atempo_chain ratio = Some (Inr fs)"
  shows "\<bar>of_int t / of_int s - prod_list fs\<bar> \<le> 1 / 1000000"
proof -
  define S :: rat where "S = of_int s"
  define T :: rat where "T = of_int t"
  have S: "1 \<le> S" "S \<le> 999999" using st by (simp_all add: S_def)
  have T: "1 \<le> T" "T \<le> 999999" using st by (simp_all add: T_def)
  have Spos: "0 < S" using S by simp
  have err': "\<bar>ratio - T / S\<bar> \<le> (T / S) / 9007199254740992"
    using err by (simp add: S_def T_def)
  have elo: "T - T / 9007199254740992 \<le> ratio * S"
    and ehi: "ratio * S \<le> T + T / 9007199254740992"
    using rounding_error_products[OF Spos err'] by (simp_all add: algebra_simps)
  have qle: "T / S \<le> 999999"
  proof -
    have "T / S \<le> T / 1" using S T by (intro divide_left_mono) simp_all
    with T show ?thesis by simp
  qed
  have kept: "\<bar>T / S - ratio\<bar> \<le> 1 / 1000000"
  proof -
    have "\<bar>T / S - ratio\<bar> = \<bar>ratio - T / S\<bar>" by (rule abs_minus_commute)
    also have "\<dots> \<le> (T / S) / 9007199254740992" by (rule err')
    also have "\<dots> \<le> 999999 / 9007199254740992" using qle by simp
    also have "\<dots> \<le> 1 / 1000000" by simp
    finally show ?thesis .
  qed
  consider (high) "2 < ratio" | (low) "ratio < 1 / 2" | (mid) "1 / 2 \<le> ratio" "ratio \<le> 2"
    by linarith
  then have "\<bar>T / S - prod_list fs\<bar> \<le> 1 / 1000000"
  proof cases
    case high
    from atempo_chain_high[OF high] chain obtain k r where
      h: "0 < k" "ratio = r * 2 ^ k" "1 < r" "r \<le> 2"
         "fs = replicate k 2 @ (if 1 / 1000000 < \<bar>r - 1\<bar> then [r] else [])"
      by auto
    show ?thesis
    proof (cases "1 / 1000000 < \<bar>r - 1\<bar>")
      case True
      then have "prod_list fs = ratio" using h(2,5) by (simp add: prod_list_replicate_rat mult.commute)
      with kept show ?thesis by simp
    next
      case False
      then have p: "prod_list fs = 2 ^ k" using h(5) by (simp add: prod_list_replicate_rat)
      define M :: rat where "M = S * 2 ^ k"
      have Mint: "M = of_int (s * 2 ^ k)" by (simp add: M_def S_def)
      have Mpos: "0 < M" using Spos by (simp add: M_def)
      have rM: "ratio * S = r * M" using h(2) by (simp add: M_def)
      have r1: "r \<le> 1 + 1 / 1000000" using False h(3) by linarith
      have a: "r * M \<le> M + M / 1000000"
      proof -
        have "r * M \<le> (1 + 1 / 1000000) * M" using r1 Mpos by (intro mult_right_mono) simp_all
        then show ?thesis by (simp add: algebra_simps)
      qed
      have b: "M < r * M"
      proof -
        have "1 * M < r * M" using h(3) Mpos by (intro mult_strict_right_mono) simp_all
        then show ?thesis by simp
      qed
      from int_gap[of t "s * 2 ^ k"] have "t = s * 2 ^ k"
      proof (elim disjE)
        assume "(of_int t :: rat) + 1 \<le> of_int (s * 2 ^ k)"
        then have "T + 1 \<le> M" by (simp add: Mint T_def)
        with b ehi rM T have False by linarith
        then show ?thesis ..
      next
        assume "(of_int (s * 2 ^ k) :: rat) + 1 \<le> of_int t"
        then have "M + 1 \<le> T" by (simp add: Mint T_def)
        with a elo rM T have False by linarith
        then show ?thesis ..
      qed simp
      then have "T / S = 2 ^ k" using Spos by (simp add: T_def S_def)
      with p show ?thesis by simp
    qed
  next
    case low
    from atempo_chain_low[OF pos low] chain obtain k r where
      h: "0 < k" "r = ratio * 2 ^ k" "1 / 2 \<le> r" "r < 1"
         "fs = replicate k (1 / 2) @ (if 1 / 1000000 < \<bar>r - 1\<bar> then [r] else [])"
      by auto
    have rat: "ratio = r * (1 / 2) ^ k" using h(2) by (simp add: power_one_over)
    show ?thesis
    proof (cases "1 / 1000000 < \<bar>r - 1\<bar>")
      case True
      then have "prod_list fs = ratio" using rat h(5) by (simp add: prod_list_replicate_rat mult.commute)
      with kept show ?thesis by simp
    next
      case False
      then have p: "prod_list fs = (1 / 2) ^ k" using h(5) by (simp add: prod_list_replicate_rat)
      define M :: rat where "M = T * 2 ^ k"
      have Mint: "M = of_int (t * 2 ^ k)" by (simp add: M_def T_def)
      have rS: "r * S = (ratio * S) * 2 ^ k" using h(2) by simp
      have r1: "1 - 1 / 1000000 \<le> r" using False h(4) by linarith
      have m1: "M - M / 9007199254740992 = (T - T / 9007199254740992) * 2 ^ k"
        and m2: "M + M / 9007199254740992 = (T + T / 9007199254740992) * 2 ^ k"
        by (simp_all add: M_def algebra_simps)
      have a: "M - M / 9007199254740992 \<le> r * S"
      proof -
        have "(T - T / 9007199254740992) * 2 ^ k \<le> (ratio * S) * 2 ^ k"
          using elo by (intro mult_right_mono) simp_all
        then show ?thesis by (simp only: m1 rS)
      qed
      have a': "r * S < S"
      proof -
        have "r * S < 1 * S" using h(4) Spos by (intro mult_strict_right_mono) simp_all
        then show ?thesis by simp
      qed
      have b: "r * S \<le> M + M / 9007199254740992"
      proof -
        have "(ratio * S) * 2 ^ k \<le> (T + T / 9007199254740992) * 2 ^ k"
          using ehi by (intro mult_right_mono) simp_all
        then show ?thesis by (simp only: m2 rS)
      qed
      have b': "S - S / 1000000 \<le> r * S"
      proof -
        have "(1 - 1 / 1000000) * S \<le> r * S" using r1 Spos by (intro mult_right_mono) simp_all
        then show ?thesis by (simp add: algebra_simps)
      qed
      from int_gap[of "t * 2 ^ k" s] have "t * 2 ^ k = s"
      proof (elim disjE)
        assume "(of_int (t * 2 ^ k) :: rat) + 1 \<le> of_int s"
        then have "M + 1 \<le> S" by (simp add: Mint S_def)
        with b b' S have False by linarith
        then show ?thesis ..
      next
        assume "(of_int s :: rat) + 1 \<le> of_int (t * 2 ^ k)"
        then have "S + 1 \<le> M" by (simp add: Mint S_def)
        with a a' S have False by linarith
        then show ?thesis ..
      qed simp
      then have "of_int s = (of_int (t * 2 ^ k) :: rat)" by simp
      then have "S = T * 2 ^ k" by (simp add: T_def S_def)
      then have "T / S = (1 / 2) ^ k" using T by (simp add: power_one_over)
      with p show ?thesis by simp
    qed
  next
    case mid
    have e: "fs = (if 1 / 1000000 < \<bar>ratio - 1\<bar> then [ratio] else [1])"
      using atempo_chain_mid[OF mid] chain by simp
    show ?thesis
    proof (cases "1 / 1000000 < \<bar>ratio - 1\<bar>")
      case True
      then have "prod_list fs = ratio" using e by simp
      with kept show ?thesis by simp
    next
      case False
      then have p: "prod_list fs = 1" using e by simp
      have r1: "ratio \<le> 1 + 1 / 1000000" "1 - 1 / 1000000 \<le> ratio" using False by linarith+
      have a: "ratio * S \<le> S + S / 1000000"
      proof -
        have "ratio * S \<le> (1 + 1 / 1000000) * S" using r1(1) Spos by (intro mult_right_mono) simp_all
        then show ?thesis by (simp add: algebra_simps)
      qed
      have b: "S - S / 1000000 \<le> ratio * S"
      proof -
        have "(1 - 1 / 1000000) * S \<le> ratio * S" using r1(2) Spos by (intro mult_right_mono) simp_all
        then show ?thesis by (simp add: algebra_simps)
      qed
      from int_gap[of t s] have "t = s"
      proof (elim disjE)
        assume "(of_int t :: rat) + 1 \<le> of_int s"
        then have "T + 1 \<le> S" by (simp add: T_def S_def)
        with b ehi S have False by linarith
        then show ?thesis ..
      next
        assume "(of_int s :: rat) + 1 \<le> of_int t"
        then have "S + 1 \<le> T" by (simp add: T_def S_def)
        with a elo S have False by linarith
        then show ?thesis ..
      qed simp
      then have "T / S = 1" using Spos by (simp add: T_def S_def)
      with p show ?thesis by simp
    qed
  qed
  then show ?thesis by (simp add: S_def T_def)
qed


lemma round_half_even_cases:
  "round_half_even x = \<lfloor>x\<rfloor> \<and> x - of_int \<lfloor>x\<rfloor> \<le> 1 / 2
   \<or> round_half_even x = \<lfloor>x\<rfloor> + 1 \<and> 1 / 2 \<le> x - of_int \<lfloor>x\<rfloor>"
  by (auto simp: round_half_even_def Let_def)

lemma round_half_even_error: "\<bar>of_int (round_half_even x) - x\<bar> \<le> 1 / 2"
proof -
  have "of_int \<lfloor>x\<rfloor> \<le> x" "x < of_int \<lfloor>x\<rfloor> + 1" by linarith+
  with round_half_even_cases[of x] show ?thesis by auto
qed

lemma round_half_even_ge: "of_int n \<le> x \<Longrightarrow> n \<le> round_half_even x"
proof -
  assume "of_int n \<le> x"
  then have "n \<le> \<lfloor>x\<rfloor>" by (simp add: le_floor_iff)
  with round_half_even_cases[of x] show ?thesis by auto
qed

lemma round_half_even_le: "x \<le> of_int n \<Longrightarrow> round_half_even x \<le> n"
proof -
  assume a: "x \<le> of_int n"
  have f: "\<lfloor>x\<rfloor> \<le> n" using a by (simp add: floor_le_iff)
  from round_half_even_cases[of x] show ?thesis
  proof
    assume "round_half_even x = \<lfloor>x\<rfloor> \<and> x - of_int \<lfloor>x\<rfloor> \<le> 1 / 2"
    with f show ?thesis by simp
  next
    assume b: "round_half_even x = \<lfloor>x\<rfloor> + 1 \<and> 1 / 2 \<le> x - of_int \<lfloor>x\<rfloor>"
    then have "of_int \<lfloor>x\<rfloor> < x" by linarith
    with a have "(of_int \<lfloor>x\<rfloor> :: rat) < of_int n" by linarith
    then have "\<lfloor>x\<rfloor> < n" by (simp only: of_int_less_iff)
    with b show ?thesis by simp
  qed
qed

lemma six_decimals_of_int: "six_decimals (of_int n) = of_int n"
proof -
  have "round_half_even (of_int n * 1000000) = n * 1000000"
    using round_half_even_ge[of "n * 1000000" "of_int n * 1000000"]
          round_half_even_le[of "of_int n * 1000000" "n * 1000000"]
    by simp
  then show ?thesis by (simp add: six_decimals_def)
qed

lemma six_decimals_fixed: "six_decimals 2 = 2" "six_decimals 1 = 1" "six_decimals (1 / 2) = 1 / 2"
proof -
  show "six_decimals 2 = 2" using six_decimals_of_int[of 2] by simp
  show "six_decimals 1 = 1" using six_decimals_of_int[of 1] by simp
  have "round_half_even (1 / 2 * 1000000) = 500000"
    using round_half_even_ge[of 500000 "1 / 2 * 1000000"]
          round_half_even_le[of "1 / 2 * 1000000" 500000]
    by simp
  then show "six_decimals (1 / 2) = 1 / 2" by (simp add: six_decimals_def)
qed

lemma six_decimals_stage:
  assumes "1 / 2 \<le> r" "r \<le> 2"
  shows "1 / 2 \<le> six_decimals r" "six_decimals r \<le> 2" "\<bar>r - six_decimals r\<bar> \<le> 1 / 2000000"
proof -
  have "500000 \<le> round_half_even (r * 1000000)"
    using assms(1) by (intro round_half_even_ge) simp
  then have "(of_int 500000 :: rat) \<le> of_int (round_half_even (r * 1000000))"
    by (simp only: of_int_le_iff)
  then show "1 / 2 \<le> six_decimals r" by (simp add: six_decimals_def)
  have "round_half_even (r * 1000000) \<le> 2000000"
    using assms(2) by (intro round_half_even_le) simp
  then have "(of_int (round_half_even (r * 1000000)) :: rat) \<le> of_int 2000000"
    by (simp only: of_int_le_iff)
  then show "six_decimals r \<le> 2" by (simp add: six_decimals_def)
  have "\<bar>of_int (round_half_even (r * 1000000)) - r * 1000000\<bar> \<le> 1 / 2"
    by (rule round_half_even_error)
  then have "\<bar>(of_int (round_half_even (r * 1000000)) - r * 1000000) / 1000000\<bar> \<le> (1 / 2) / 1000000"
    by (simp only: abs_divide) simp
  then show "\<bar>r - six_decimals r\<bar> \<le> 1 / 2000000"
    by (simp add: six_decimals_def diff_divide_distrib abs_minus_commute)
qed

lemma printed_kept:
  assumes c: "c = 2 \<or> c = 1 / 2" and r: "1 / 2 \<le> r" "r \<le> 2" and ratio: "ratio = r * c ^ k"
  shows "\<forall>f \<in> set (map six_decimals (replicate k c @ [r])). 1 / 2 \<le> f \<and> f \<le> 2"
    and "\<bar>ratio - prod_list (map six_decimals (replicate k c @ [r]))\<bar>
           \<le> prod_list (map six_decimals (replicate k c @ [r])) / 1000000"
proof -
  have fx: "six_decimals c = c" using c by (elim disjE) (simp_all only: six_decimals_fixed)
  have cpos: "0 < c ^ k" using c by auto
  have m: "map six_decimals (replicate k c @ [r]) = replicate k c @ [six_decimals r]"
    by (simp add: fx)
  show "\<forall>f \<in> set (map six_decimals (replicate k c @ [r])). 1 / 2 \<le> f \<and> f \<le> 2"
    unfolding m using c six_decimals_stage(1,2)[OF r] by auto
  have p: "prod_list (map six_decimals (replicate k c @ [r])) = c ^ k * six_decimals r"
    unfolding m by (simp add: prod_list_replicate_rat)
  have "\<bar>ratio - c ^ k * six_decimals r\<bar> = c ^ k * \<bar>r - six_decimals r\<bar>"
  proof -
    have "ratio - c ^ k * six_decimals r = c ^ k * (r - six_decimals r)"
      by (simp add: ratio algebra_simps)
    then show ?thesis using cpos by (simp add: abs_mult)
  qed
  also have "\<dots> \<le> c ^ k * (six_decimals r / 1000000)"
  proof -
    have "\<bar>r - six_decimals r\<bar> \<le> six_decimals r / 1000000"
      using six_decimals_stage(1,3)[OF r] by linarith
    then show ?thesis using cpos by (intro mult_left_mono) simp_all
  qed
  finally show "\<bar>ratio - prod_list (map six_decimals (replicate k c @ [r]))\<bar>
           \<le> prod_list (map six_decimals (replicate k c @ [r])) / 1000000"
    by (simp only: p)
qed


lemma printed_dropped:
  assumes c: "c = 2 \<or> c = 1 / 2" and r: "\<bar>r - 1\<bar> \<le> 1 / 1000000" and ratio: "ratio = r * c ^ k"
  shows "\<forall>f \<in> set (replicate k c). 1 / 2 \<le> f \<and> f \<le> 2"
    and "map six_decimals (replicate k c) = replicate k c"
    and "\<bar>ratio - prod_list (replicate k c)\<bar> \<le> prod_list (replicate k c) / 1000000"
proof -
  have fx: "six_decimals c = c" using c by (elim disjE) (simp_all only: six_decimals_fixed)
  have cpos: "0 < c ^ k" using c by auto
  show "\<forall>f \<in> set (replicate k c). 1 / 2 \<le> f \<and> f \<le> 2" using c by auto
  show "map six_decimals (replicate k c) = replicate k c" by (simp add: fx)
  have "ratio - c ^ k = c ^ k * (r - 1)" by (simp add: ratio algebra_simps)
  then have "\<bar>ratio - c ^ k\<bar> = c ^ k * \<bar>r - 1\<bar>" using cpos by (simp add: abs_mult)
  also have "\<dots> \<le> c ^ k * (1 / 1000000)" using r cpos by (intro mult_left_mono) simp_all
  finally show "\<bar>ratio - prod_list (replicate k c)\<bar> \<le> prod_list (replicate k c) / 1000000"
    by (simp add: prod_list_replicate_rat)
qed

lemma atempo_chain_general:
  assumes "0 < ratio"
  shows "\<exists>fs. atempo_chain ratio = Some (Inr fs) \<and> fs \<noteq> []
           \<and> (\<forall>f \<in> set fs. 1 / 2 \<le> f \<and> f \<le> 2)
           \<and> (prod_list fs = ratio
                \<or> (fs = [1] \<or> (\<exists>k. fs = replicate k 2) \<or> (\<exists>k. fs = replicate k (1 / 2)))
                   \<and> \<bar>ratio - prod_list fs\<bar> \<le> prod_list fs / 1000000)
           \<and> (\<bar>ratio - 1\<bar> \<le> 1 / 1000000 \<longrightarrow> fs = [1])
           \<and> (\<forall>f \<in> set (map six_decimals fs). 1 / 2 \<le> f \<and> f \<le> 2)
           \<and> \<bar>ratio - prod_list (map six_decimals fs)\<bar> \<le> prod_list (map six_decimals fs) / 1000000"
proof -
  consider (high) "2 < ratio" | (low) "ratio < 1 / 2" | (mid) "1 / 2 \<le> ratio" "ratio \<le> 2"
    by linarith
  then show ?thesis
  proof cases
    case high
    from atempo_chain_high[OF high] obtain k r where
      h: "0 < k" "ratio = r * 2 ^ k" "1 < r" "r \<le> 2"
         "atempo_chain ratio = Some (Inr (replicate k 2 @ (if 1 / 1000000 < \<bar>r - 1\<bar> then [r] else [])))"
      by blast
    have far: "\<not> \<bar>ratio - 1\<bar> \<le> 1 / 1000000" using high by linarith
    show ?thesis
    proof (cases "1 / 1000000 < \<bar>r - 1\<bar>")
      case True
      let ?fs = "replicate k 2 @ [r]"
      have e: "atempo_chain ratio = Some (Inr ?fs)" using h(5) True by simp
      have p: "prod_list ?fs = ratio" using h(2) by (simp add: prod_list_replicate_rat mult.commute)
      have b: "\<forall>f \<in> set ?fs. 1 / 2 \<le> f \<and> f \<le> 2" using h(3,4) by auto
      have r: "1 / 2 \<le> r" using h(3) by simp
      note pk = printed_kept[OF disjI1[OF refl] r h(4) h(2)]
      show ?thesis using e p b far pk by (intro exI[of _ ?fs]) simp
    next
      case False
      let ?fs = "replicate k (2::rat)"
      have e: "atempo_chain ratio = Some (Inr ?fs)" using h(5) False by simp
      have ne: "?fs \<noteq> []" using h(1) by simp
      have r: "\<bar>r - 1\<bar> \<le> 1 / 1000000" using False by simp
      note pd = printed_dropped[OF disjI1[OF refl] r h(2)]
      have sh: "?fs = [1] \<or> (\<exists>k'. ?fs = replicate k' 2) \<or> (\<exists>k'. ?fs = replicate k' (1 / 2))"
        by blast
      show ?thesis using e ne far pd sh by (intro exI[of _ ?fs]) (simp only: pd(2), blast)
    qed
  next
    case low
    from atempo_chain_low[OF assms low] obtain k r where
      h: "0 < k" "r = ratio * 2 ^ k" "1 / 2 \<le> r" "r < 1"
         "atempo_chain ratio = Some (Inr (replicate k (1 / 2) @ (if 1 / 1000000 < \<bar>r - 1\<bar> then [r] else [])))"
      by blast
    have rat: "ratio = r * (1 / 2) ^ k" using h(2) by (simp add: power_one_over)
    have far: "\<not> \<bar>ratio - 1\<bar> \<le> 1 / 1000000" using low by linarith
    show ?thesis
    proof (cases "1 / 1000000 < \<bar>r - 1\<bar>")
      case True
      let ?fs = "replicate k (1 / 2) @ [r]"
      have e: "atempo_chain ratio = Some (Inr ?fs)" using h(5) True by simp
      have p: "prod_list ?fs = ratio" using rat by (simp add: prod_list_replicate_rat mult.commute)
      have b: "\<forall>f \<in> set ?fs. 1 / 2 \<le> f \<and> f \<le> 2" using h(3,4) by auto
      have r2: "r \<le> 2" using h(4) by simp
      note pk = printed_kept[OF disjI2[OF refl] h(3) r2 rat]
      show ?thesis using e p b far pk by (intro exI[of _ ?fs]) simp
    next
      case False
      let ?fs = "replicate k (1 / 2 :: rat)"
      have e: "atempo_chain ratio = Some (Inr ?fs)" using h(5) False by simp
      have ne: "?fs \<noteq> []" using h(1) by simp
      have r: "\<bar>r - 1\<bar> \<le> 1 / 1000000" using False by simp
      note pd = printed_dropped[OF disjI2[OF refl] r rat]
      have sh: "?fs = [1] \<or> (\<exists>k'. ?fs = replicate k' 2) \<or> (\<exists>k'. ?fs = replicate k' (1 / 2))"
        by blast
      show ?thesis using e ne far pd sh by (intro exI[of _ ?fs]) (simp only: pd(2), blast)
    qed
  next
    case mid
    have e: "atempo_chain ratio = Some (Inr (if 1 / 1000000 < \<bar>ratio - 1\<bar> then [ratio] else [1]))"
      using mid by (rule atempo_chain_mid)
    show ?thesis
    proof (cases "1 / 1000000 < \<bar>ratio - 1\<bar>")
      case True
      have e': "atempo_chain ratio = Some (Inr [ratio])" using e True by simp
      have rr: "ratio = ratio * 2 ^ 0" by simp
      note pk = printed_kept[OF disjI1[OF refl] mid rr]
      show ?thesis using e' mid True pk by (intro exI[of _ "[ratio]"]) simp
    next
      case False
      have e': "atempo_chain ratio = Some (Inr [1])" using e False by simp
      show ?thesis using e' False by (intro exI[of _ "[1]"]) (simp add: six_decimals_fixed)
    qed
  qed
qed

lemma float_rounding_id: "float_rounding (\<lambda>q. q)"
  by (simp add: float_rounding_def)

lemma no_overflow_small: "\<bar>q\<bar> \<le> 1000000 \<Longrightarrow> \<not> 2 ^ 1024 - 2 ^ 970 \<le> \<bar>q :: rat\<bar>"
proof -
  assume a: "\<bar>q\<bar> \<le> 1000000"
  have "(2::rat) ^ 1024 = 2 ^ 970 * 2 ^ 54" by (simp flip: power_add)
  then have "(2::rat) ^ 1024 - 2 ^ 970 = 2 ^ 970 * (2 ^ 54 - 1)" by (simp add: algebra_simps)
  moreover have "(1::rat) \<le> 2 ^ 970" by simp
  moreover have "(1000000::rat) < 2 ^ 54 - 1" by simp
  ultimately have "1000000 < (2::rat) ^ 1024 - 2 ^ 970"
    by (metis less_le_trans mult_le_cancel_right1 not_le order_less_imp_le zero_less_numeral zero_less_power mult.commute less_trans zero_less_one)
  with a show ?thesis by linarith
qed

text \<open>
  Claim C1, amended. Let sourceBpm > 0 and targetBpm > 0, and let the true division of
  line 278 give the positive float \<open>ratio\<close> (it does not raise, and does not round to
  zero). Then the chain of \<open>ratio\<close> is returned and is not empty, and every stage lies
  in [1/2, 2]. The product p of the stages is \<open>ratio\<close> itself whenever the remainder
  stage is kept; when the remainder is dropped the chain is [1] or holds only stages 2
  or only stages 1/2, and \<open>|ratio - p| \<le> p / 1000000\<close>. For tempi up to 999999 the product
  is within 1/1000000 of targetBpm / sourceBpm. A ratio within 1/1000000 of 1 gives the
  chain [1]. The stages as printed with six decimals lie in [1/2, 2] as well, and their
  product p' satisfies \<open>|ratio - p'| \<le> p' / 1000000\<close>.
\<close>

theorem atempo_chain_product:
  assumes rnd: "float_rounding rnd"
    and st: "0 < sourceBpm" "0 < targetBpm"
    and division: "py_true_div rnd targetBpm sourceBpm = Inr ratio"
    and pos: "0 < ratio"
  shows "\<exists>fs. atempo_chain ratio = Some (Inr fs) \<and> fs \<noteq> []
           \<and> (\<forall>f \<in> set fs. 1 / 2 \<le> f \<and> f \<le> 2)
           \<and> (prod_list fs = ratio
                \<or> (fs = [1] \<or> (\<exists>k. fs = replicate k 2) \<or> (\<exists>k. fs = replicate k (1 / 2)))
                   \<and> \<bar>ratio - prod_list fs\<bar> \<le> prod_list fs / 1000000)
           \<and> (sourceBpm \<le> 999999 \<and> targetBpm \<le> 999999
                \<longrightarrow> \<bar>of_int targetBpm / of_int sourceBpm - prod_list fs\<bar> \<le> 1 / 1000000)
           \<and> (\<bar>ratio - 1\<bar> \<le> 1 / 1000000 \<longrightarrow> fs = [1])
           \<and> (\<forall>f \<in> set (map six_decimals fs). 1 / 2 \<le> f \<and> f \<le> 2)
           \<and> \<bar>ratio - prod_list (map six_decimals fs)\<bar> \<le> prod_list (map six_decimals fs) / 1000000"
proof -
  from atempo_chain_general[OF pos] obtain fs where
    g: "atempo_chain ratio = Some (Inr fs)" "fs \<noteq> []"
       "\<forall>f \<in> set fs. 1 / 2 \<le> f \<and> f \<le> 2"
       "prod_list fs = ratio
          \<or> (fs = [1] \<or> (\<exists>k. fs = replicate k 2) \<or> (\<exists>k. fs = replicate k (1 / 2)))
             \<and> \<bar>ratio - prod_list fs\<bar> \<le> prod_list fs / 1000000"
       "\<bar>ratio - 1\<bar> \<le> 1 / 1000000 \<longrightarrow> fs = [1]"
       "\<forall>f \<in> set (map six_decimals fs). 1 / 2 \<le> f \<and> f \<le> 2"
       "\<bar>ratio - prod_list (map six_decimals fs)\<bar> \<le> prod_list (map six_decimals fs) / 1000000"
    by blast
  have near: "\<bar>of_int targetBpm / of_int sourceBpm - prod_list fs\<bar> \<le> 1 / 1000000"
    if small: "sourceBpm \<le> 999999" "targetBpm \<le> 999999"
  proof -
    define q :: rat where "q = of_int targetBpm / of_int sourceBpm"
    have S: "(1::rat) \<le> of_int sourceBpm" "(of_int sourceBpm :: rat) \<le> 999999"
      using st small by simp_all
    have T: "(1::rat) \<le> of_int targetBpm" "(of_int targetBpm :: rat) \<le> 999999"
      using st small by simp_all
    have qhi: "q \<le> 999999"
    proof -
      have "q \<le> of_int targetBpm / 1" unfolding q_def using S T by (intro divide_left_mono) simp_all
      with T show ?thesis by simp
    qed
    have qlo: "1 / 999999 \<le> q"
    proof -
      have "1 / 999999 \<le> 1 / (of_int sourceBpm :: rat)" using S by (intro divide_left_mono) simp_all
      also have "\<dots> \<le> q" unfolding q_def using S T by (intro divide_right_mono) simp_all
      finally show ?thesis .
    qed
    have p20: "(2::rat) ^ 20 \<le> 2 ^ 1022" "(2::rat) ^ 20 \<le> 2 ^ 1024"
      by (rule power_increasing; simp)+
    have p20v: "(2::rat) ^ 20 = 1048576" by simp
    have n1: "1 / 2 ^ 1022 \<le> \<bar>q\<bar>"
    proof -
      have "1 / (2::rat) ^ 1022 \<le> 1 / 2 ^ 20" using p20(1) by (intro divide_left_mono) simp_all
      also have "\<dots> \<le> 1 / 999999" by (simp only: p20v)
      finally show ?thesis using qlo by linarith
    qed
    have n2: "\<bar>q\<bar> < 2 ^ 1024"
    proof -
      have "\<bar>q\<bar> < 2 ^ 20" using qhi qlo by (simp only: p20v)
      with p20(2) show ?thesis by linarith
    qed
    have ratio: "ratio = rnd q"
      using division st by (auto simp: py_true_div_def q_def split: if_splits)
    have "\<bar>rnd q - q\<bar> \<le> \<bar>q\<bar> / 2 ^ 53"
      using rnd n1 n2 unfolding float_rounding_def by blast
    then have "\<bar>ratio - q\<bar> \<le> q / 9007199254740992"
      using qlo by (simp add: ratio)
    then show ?thesis
      unfolding q_def using product_near_quotient[OF st small _ pos g(1)] by blast
  qed
  show ?thesis using g near by (intro exI[of _ fs]) blast
qed


text \<open>The theorem at sourceBpm = 40 and targetBpm = 220, where the quotient 11/2 is a
  float: the chain is [2, 2, 11/8] and its product is the quotient.\<close>

theorem atempo_chain_product_witness:
  "float_rounding (\<lambda>q. q) \<and> (0::int) < 40 \<and> (0::int) < 220
   \<and> py_true_div (\<lambda>q. q) 220 40 = Inr (11 / 2) \<and> (0::rat) < 11 / 2
   \<and> atempo_chain (11 / 2) = Some (Inr [2, 2, 11 / 8])
   \<and> prod_list [2, 2, 11 / 8] = (11 / 2 :: rat)
   \<and> \<bar>of_int 220 / of_int 40 - prod_list [2, 2, 11 / 8]\<bar> \<le> (1 / 1000000 :: rat)
   \<and> map six_decimals [2, 2, 11 / 8] = [2, 2, 11 / 8]"
proof -
  have dv: "py_true_div (\<lambda>q. q) 220 40 = Inr (11 / 2)"
    using no_overflow_small[of "11 / 2"] by (simp add: py_true_div_def)
  have e: "atempo_chain (11 / 2) = Some (Inr [2, 2, 11 / 8])" by code_simp
  have sd: "map six_decimals [2, 2, 11 / 8] = [2, 2, 11 / 8]" by code_simp
  from atempo_chain_product[OF float_rounding_id _ _ dv, of ] obtain fs where
    "atempo_chain (11 / 2) = Some (Inr fs)"
    "(40::int) \<le> 999999 \<and> (220::int) \<le> 999999
       \<longrightarrow> \<bar>of_int 220 / of_int 40 - prod_list fs\<bar> \<le> (1 / 1000000 :: rat)"
    by auto
  with e dv sd float_rounding_id show ?thesis by simp
qed


text \<open>
  Claim C1 as stated asks for the absolute tolerance at every pair of tempi. At
  sourceBpm = 500000 and targetBpm = 2000001 the remainder 1.0000005 is dropped, the
  chain is [2, 2], and its product 4 is 0.000002 away from the ratio.
\<close>

theorem atempo_chain_product_counterexample:
  "(0::int) < 500000 \<and> (0::int) < 2000001
   \<and> atempo_chain (of_int 2000001 / of_int 500000) = Some (Inr [2, 2])
   \<and> \<not> \<bar>prod_list [2, 2] - of_int 2000001 / of_int 500000\<bar> \<le> (1 / 1000000 :: rat)"
proof -
  have e: "atempo_chain (of_int 2000001 / of_int 500000) = Some (Inr [2, 2])" by code_simp
  then show ?thesis by simp
qed

text \<open>
  Claim C9. For every ratio > 0 the chain never holds both a stage 2 and a stage 1/2:
  a ratio above 2 gives one or more stages 2 and then at most one remainder stage,
  which lies in (1, 2]; a ratio below 1/2 gives one or more stages 1/2 and then at most
  one remainder stage, which lies in [1/2, 1); a ratio in [1/2, 2] gives a single stage.
\<close>

theorem atempo_chain_one_direction:
  assumes "0 < ratio"
  shows "\<exists>fs. atempo_chain ratio = Some (Inr fs)
           \<and> \<not> (2 \<in> set fs \<and> 1 / 2 \<in> set fs)
           \<and> (2 < ratio \<longrightarrow> (\<exists>k rem. 0 < k \<and> fs = replicate k 2 @ rem \<and> length rem \<le> 1
                                  \<and> (\<forall>x \<in> set rem. 1 < x \<and> x \<le> 2)))
           \<and> (ratio < 1 / 2 \<longrightarrow> (\<exists>k rem. 0 < k \<and> fs = replicate k (1 / 2) @ rem \<and> length rem \<le> 1
                                  \<and> (\<forall>x \<in> set rem. 1 / 2 \<le> x \<and> x < 1)))
           \<and> (1 / 2 \<le> ratio \<and> ratio \<le> 2 \<longrightarrow> length fs = 1)"
proof -
  consider (hi) "2 < ratio" | (lo) "ratio < 1 / 2" | (mid) "1 / 2 \<le> ratio" "ratio \<le> 2"
    by linarith
  then show ?thesis
  proof cases
    case hi
    from atempo_chain_high[OF hi] obtain k r where
      h: "0 < k" "1 < r" "r \<le> 2"
         "atempo_chain ratio = Some (Inr (replicate k 2 @ (if 1 / 1000000 < \<bar>r - 1\<bar> then [r] else [])))"
      by blast
    let ?rem = "if 1 / 1000000 < \<bar>r - 1\<bar> then [r] else []"
    have a: "\<not> (2 \<in> set (replicate k 2 @ ?rem) \<and> 1 / 2 \<in> set (replicate k 2 @ ?rem))"
      using h(2) by auto
    have b: "\<exists>k' rem. 0 < k' \<and> replicate k 2 @ ?rem = replicate k' 2 @ rem \<and> length rem \<le> 1
               \<and> (\<forall>x \<in> set rem. 1 < x \<and> x \<le> 2)"
      using h(1,2,3) by (intro exI[of _ k] exI[of _ ?rem]) simp
    show ?thesis using h(4) a b hi by (intro exI[of _ "replicate k 2 @ ?rem"]) simp
  next
    case lo
    from atempo_chain_low[OF assms lo] obtain k r where
      h: "0 < k" "1 / 2 \<le> r" "r < 1"
         "atempo_chain ratio = Some (Inr (replicate k (1 / 2) @ (if 1 / 1000000 < \<bar>r - 1\<bar> then [r] else [])))"
      by blast
    let ?rem = "if 1 / 1000000 < \<bar>r - 1\<bar> then [r] else []"
    have a: "\<not> (2 \<in> set (replicate k (1 / 2) @ ?rem) \<and> 1 / 2 \<in> set (replicate k (1 / 2) @ ?rem))"
      using h(3) by auto
    have b: "\<exists>k' rem. 0 < k' \<and> replicate k (1 / 2) @ ?rem = replicate k' (1 / 2) @ rem \<and> length rem \<le> 1
               \<and> (\<forall>x \<in> set rem. 1 / 2 \<le> x \<and> x < 1)"
      using h(1,2,3) by (intro exI[of _ k] exI[of _ ?rem]) simp
    show ?thesis using h(4) a b lo by (intro exI[of _ "replicate k (1 / 2) @ ?rem"]) simp
  next
    case mid
    have e: "atempo_chain ratio = Some (Inr (if 1 / 1000000 < \<bar>ratio - 1\<bar> then [ratio] else [1]))"
      using mid by (rule atempo_chain_mid)
    show ?thesis using e mid by (intro exI[of _ "if 1 / 1000000 < \<bar>ratio - 1\<bar> then [ratio] else [1]"]) auto
  qed
qed

text \<open>The theorem at the ratio 22/5: two stages 2 and the remainder 11/10.\<close>

theorem atempo_chain_one_direction_witness:
  "(0::rat) < 22 / 5 \<and> atempo_chain (22 / 5) = Some (Inr (replicate 2 2 @ [11 / 10]))
   \<and> \<not> (2 \<in> set (replicate 2 2 @ [11 / 10 :: rat]) \<and> 1 / 2 \<in> set (replicate 2 2 @ [11 / 10 :: rat]))"
proof -
  have e: "atempo_chain (22 / 5) = Some (Inr (replicate 2 2 @ [11 / 10]))" by code_simp
  from atempo_chain_one_direction[of "22 / 5"] obtain fs where
    "atempo_chain (22 / 5) = Some (Inr fs)" "\<not> (2 \<in> set fs \<and> 1 / 2 \<in> set fs)"
    by auto
  with e show ?thesis by simp
qed


end
